theory Spec2Isabelle
  imports Complex_Main
begin

section \<open>Data model\<close>

text \<open>
  The Python sources work on lists of three-element lists \<^verbatim>\<open>[start_time, end_time, speaker]\<close>
  (\<^verbatim>\<open>forced_alignment.py\<close>) and on tuples \<^verbatim>\<open>(start_time, duration, speaker_id)\<close>
  (\<^verbatim>\<open>evaluation.py\<close>). Both are modelled as triples. Python floats are modelled as
  exact real numbers: comparisons, sums and differences are the mathematical ones, and
  rounding of binary floating point is outside the model.

  Exceptions are values: a function that can raise returns \<open>py_error + 'a\<close>, with \<open>Inl\<close>
  carrying the exception the interpreter raises.
\<close>

datatype py_error = IndexError | ValueError | ZeroDivisionError

type_synonym entry = "real \<times> real \<times> string"

definition start_time :: "entry \<Rightarrow> real" where
  "start_time r = fst r"

definition end_time :: "entry \<Rightarrow> real" where
  "end_time r = fst (snd r)"

definition speaker :: "entry \<Rightarrow> string" where
  "speaker r = snd (snd r)"

section \<open>Segment merger: \<^verbatim>\<open>merge_close_numbers\<close>\<close>

text \<open>
  \<^verbatim>\<open>
  def merge_close_numbers(l, threshold=0.5):
      merged_list = [l[0]]
      for i in l[1:]:
          if i[0] - merged_list[-1][1] < threshold:
              merged_list[-1][1] = i[1]  # Overwrite end_time
          else:
              merged_list.append(i)
      return merged_list
  \<close>
  \<open>merge_loop\<close> is the \<^verbatim>\<open>for\<close> loop, with \<^verbatim>\<open>merged_list\<close> as accumulator; overwriting the
  end time of the last element replaces that element. The assignment also changes the
  element of \<^verbatim>\<open>l\<close> that \<^verbatim>\<open>merged_list\<close> shares with it, which lies before the position of the
  loop and is not read again: the returned list is the one computed here, for an input
  whose elements are distinct objects, as \<^verbatim>\<open>convert_csv_to_rttm\<close> builds them.
  \<^verbatim>\<open>l[0]\<close> on the empty list raises IndexError.
\<close>

fun merge_loop :: "real \<Rightarrow> entry list \<Rightarrow> entry list \<Rightarrow> entry list" where
  "merge_loop threshold merged_list [] = merged_list"
| "merge_loop threshold merged_list (i # rest) =
     (if start_time i - end_time (last merged_list) < threshold
      then merge_loop threshold
             (butlast merged_list @
                [(start_time (last merged_list), end_time i, speaker (last merged_list))]) rest
      else merge_loop threshold (merged_list @ [i]) rest)"

definition merge_close_numbers :: "entry list \<Rightarrow> real \<Rightarrow> py_error + entry list" where
  "merge_close_numbers l threshold =
     (case l of [] \<Rightarrow> Inl IndexError
      | x # xs \<Rightarrow> Inr (merge_loop threshold [x] xs))"

definition default_threshold :: real where
  "default_threshold = 0.5"

subsection \<open>Runs of close records\<close>

text \<open>
  The vocabulary in which the properties of the merger are stated. \<open>gap_below\<close> is the
  test of the loop, \<open>next.start - current.end < threshold\<close>. \<open>runs\<close> cuts a sequence into its
  maximal runs of consecutive records with a gap below the threshold, \<open>coalesce\<close> is the
  one record that stands for a run, \<open>times\<close> forgets the label, and \<open>total_span\<close> is
  \<open>max(end) - min(start)\<close> over a sequence.
\<close>

definition gap_below :: "real \<Rightarrow> entry \<Rightarrow> entry \<Rightarrow> bool" where
  "gap_below \<tau> current next = (start_time next - end_time current < \<tau>)"

definition times :: "entry \<Rightarrow> real \<times> real" where
  "times r = (start_time r, end_time r)"

definition total_span :: "entry list \<Rightarrow> real" where
  "total_span l = Max (end_time ` set l) - Min (start_time ` set l)"

fun runs :: "real \<Rightarrow> entry list \<Rightarrow> entry list list" where
  "runs \<tau> [] = []"
| "runs \<tau> [x] = [[x]]"
| "runs \<tau> (x # y # zs) =
     (if start_time y - end_time x < \<tau>
      then (case runs \<tau> (y # zs) of [] \<Rightarrow> [[x]] | r # rs \<Rightarrow> (x # r) # rs)
      else [x] # runs \<tau> (y # zs))"

definition coalesce :: "entry list \<Rightarrow> entry" where
  "coalesce run = (start_time (hd run), end_time (last run), speaker (hd run))"

section \<open>Text primitives of the interpreter\<close>

text \<open>
  Strings are lists of characters with the code points 0 to 255. \<open>is_space\<close> is the
  whitespace of Python's \<^verbatim>\<open>str.split()\<close> and \<^verbatim>\<open>str.strip()\<close> among them: tab, line feed,
  vertical tab, form feed, carriage return, the four separators \<^verbatim>\<open>0x1c\<close> to \<^verbatim>\<open>0x1f\<close>, the
  space, the next-line character \<^verbatim>\<open>0x85\<close> and the no-break space \<^verbatim>\<open>0xa0\<close>.

  \<open>py_split\<close> is \<^verbatim>\<open>s.split()\<close>: the maximal runs of non-whitespace characters, in order;
  \<open>split_words cur s\<close> scans \<open>s\<close> with the word read so far in \<open>cur\<close>.
  \<open>py_strip\<close> is \<^verbatim>\<open>s.strip()\<close>. \<open>py_index xs i\<close> is \<^verbatim>\<open>xs[i]\<close> for an index \<open>i \<ge> 0\<close>, which
  raises IndexError out of range.
\<close>

definition is_space :: "char \<Rightarrow> bool" where
  "is_space c = (of_char c \<in> {9, 10, 11, 12, 13, 28, 29, 30, 31, 32, 133, 160 :: nat})"

fun split_words :: "string \<Rightarrow> string \<Rightarrow> string list" where
  "split_words cur [] = (if cur = [] then [] else [cur])"
| "split_words cur (c # cs) =
     (if is_space c
      then (if cur = [] then split_words [] cs else cur # split_words [] cs)
      else split_words (cur @ [c]) cs)"

definition py_split :: "string \<Rightarrow> string list" where
  "py_split s = split_words [] s"

definition py_strip :: "string \<Rightarrow> string" where
  "py_strip s = rev (dropWhile is_space (rev (dropWhile is_space s)))"

definition py_index :: "'a list \<Rightarrow> nat \<Rightarrow> py_error + 'a" where
  "py_index xs i = (if i < length xs then Inr (xs ! i) else Inl IndexError)"

section \<open>RTTM parsing: \<^verbatim>\<open>parse_rttm_file\<close>\<close>

text \<open>
  \<^verbatim>\<open>
  def parse_rttm_file(file_path):
      with open(file_path, 'r') as file:
          lines = file.readlines()
      speaker_info = []
      for line in lines:
          parts = line.strip().split()
          start_time = float(parts[3])
          duration = float(parts[4])
          speaker_id = parts[7]
          speaker_info.append((start_time, duration, speaker_id))
      return speaker_info
  \<close>
  The model takes the list \<^verbatim>\<open>lines\<close> that \<^verbatim>\<open>readlines()\<close> returns. The builtin \<^verbatim>\<open>float\<close> is a
  parameter \<open>float_of\<close>: \<open>None\<close> where the builtin raises ValueError. The statements of one
  iteration are evaluated in the order of the source, so the first failing one decides the
  exception.
\<close>

type_synonym speaker_tuple = "real \<times> real \<times> string"

definition parse_rttm_line :: "(string \<Rightarrow> real option) \<Rightarrow> string \<Rightarrow> py_error + speaker_tuple" where
  "parse_rttm_line float_of line =
     (let parts = py_split (py_strip line) in
      case py_index parts 3 of Inl e \<Rightarrow> Inl e
      | Inr p3 \<Rightarrow>
      (case float_of p3 of None \<Rightarrow> Inl ValueError
       | Some start \<Rightarrow>
       (case py_index parts 4 of Inl e \<Rightarrow> Inl e
        | Inr p4 \<Rightarrow>
        (case float_of p4 of None \<Rightarrow> Inl ValueError
         | Some duration \<Rightarrow>
         (case py_index parts 7 of Inl e \<Rightarrow> Inl e
          | Inr speaker_id \<Rightarrow> Inr (start, duration, speaker_id))))))"

fun parse_rttm_loop ::
  "(string \<Rightarrow> real option) \<Rightarrow> speaker_tuple list \<Rightarrow> string list \<Rightarrow> py_error + speaker_tuple list" where
  "parse_rttm_loop float_of speaker_info [] = Inr speaker_info"
| "parse_rttm_loop float_of speaker_info (line # rest) =
     (case parse_rttm_line float_of line of Inl e \<Rightarrow> Inl e
      | Inr t \<Rightarrow> parse_rttm_loop float_of (speaker_info @ [t]) rest)"

definition parse_rttm_file :: "(string \<Rightarrow> real option) \<Rightarrow> string list \<Rightarrow> py_error + speaker_tuple list" where
  "parse_rttm_file float_of lines = parse_rttm_loop float_of [] lines"

section \<open>Overlap analyzer: \<^verbatim>\<open>calculate_overlap_duration\<close>\<close>

text \<open>
  \<^verbatim>\<open>
  speaker_info = parse_rttm_file(rttm_file_path)
  overlap_tuple = []
  for i in range(len(speaker_info) - 1):
      j = i + 1
      start_i, duration_i, _ = speaker_info[i]
      start_j, duration_j, _ = speaker_info[j]
      end_i = start_i + duration_i
      end_j = start_j + duration_j
      overlap_start = max(start_i, start_j)
      overlap_end = min(end_i, end_j)
      if overlap_start < overlap_end:
          overlap_tuple.append((overlap_start, overlap_end))
  last_end = 0.0
  overlaps = []
  for start, end in overlap_tuple:
      if start <= last_end:
          overlaps.append(end - last_end)
      else:
          overlaps.append(end - start)
      last_end = end
  total_overlap_duration = sum(overlaps)
  relative_overlap = total_overlap_duration / last_end if overlaps != [] else 0.0
  return total_overlap_duration, relative_overlap
  \<close>
  \<open>overlap_step\<close> is the body of the first loop at index \<open>i\<close>, \<open>collect_overlaps\<close> the first
  loop (\<^verbatim>\<open>range(len(speaker_info) - 1)\<close> is empty for the empty list, as the truncated
  subtraction on \<open>nat\<close> has it), \<open>accumulate\<close> the second loop with its state
  \<open>(last_end, overlaps)\<close>. The division raises ZeroDivisionError when \<^verbatim>\<open>last_end\<close> is zero.
\<close>

definition overlap_step :: "speaker_tuple list \<Rightarrow> (real \<times> real) list \<Rightarrow> nat \<Rightarrow> (real \<times> real) list" where
  "overlap_step speaker_info overlap_tuple i =
     (let j = i + 1;
          start_i = fst (speaker_info ! i); duration_i = fst (snd (speaker_info ! i));
          start_j = fst (speaker_info ! j); duration_j = fst (snd (speaker_info ! j));
          end_i = start_i + duration_i;
          end_j = start_j + duration_j;
          overlap_start = max start_i start_j;
          overlap_end = min end_i end_j
      in if overlap_start < overlap_end
         then overlap_tuple @ [(overlap_start, overlap_end)]
         else overlap_tuple)"

definition collect_overlaps :: "speaker_tuple list \<Rightarrow> (real \<times> real) list" where
  "collect_overlaps speaker_info =
     fold (\<lambda>i overlap_tuple. overlap_step speaker_info overlap_tuple i)
       [0 ..< length speaker_info - 1] []"

fun accumulate :: "real \<Rightarrow> real list \<Rightarrow> (real \<times> real) list \<Rightarrow> real \<times> real list" where
  "accumulate last_end overlaps [] = (last_end, overlaps)"
| "accumulate last_end overlaps ((start, end) # rest) =
     (if start \<le> last_end
      then accumulate end (overlaps @ [end - last_end]) rest
      else accumulate end (overlaps @ [end - start]) rest)"

definition overlap_of_speaker_info :: "speaker_tuple list \<Rightarrow> py_error + (real \<times> real)" where
  "overlap_of_speaker_info speaker_info =
     (let overlap_tuple = collect_overlaps speaker_info;
          (last_end, overlaps) = accumulate 0 [] overlap_tuple;
          total_overlap_duration = sum_list overlaps
      in if overlaps \<noteq> []
         then (if last_end = 0 then Inl ZeroDivisionError
               else Inr (total_overlap_duration, total_overlap_duration / last_end))
         else Inr (total_overlap_duration, 0))"

definition calculate_overlap_duration ::
  "(string \<Rightarrow> real option) \<Rightarrow> string list \<Rightarrow> py_error + (real \<times> real)" where
  "calculate_overlap_duration float_of lines =
     (case parse_rttm_file float_of lines of Inl e \<Rightarrow> Inl e
      | Inr speaker_info \<Rightarrow> overlap_of_speaker_info speaker_info)"

subsection \<open>The overlap rule as the specification words it\<close>

text \<open>
  \<open>pair_overlap\<close> is the interval \<open>[max(start_i, start_j), min(end_i, end_j)]\<close> of a pair, kept
  when \<open>overlap_start < overlap_end\<close> (strictly), with \<open>end = start + duration\<close>;
  \<open>consecutive_overlaps\<close> collects it over the consecutive pairs, in order;
  \<open>attributed last_end ovs\<close> is the list of attributed durations of the intervals \<open>ovs\<close>
  met with the given \<open>last_end\<close>; \<open>final_last_end\<close> is the end of the last interval, or the
  initial \<open>0\<close> when there is none.
\<close>

definition pair_overlap :: "speaker_tuple \<Rightarrow> speaker_tuple \<Rightarrow> (real \<times> real) list" where
  "pair_overlap a b =
     (if max (fst a) (fst b) < min (fst a + fst (snd a)) (fst b + fst (snd b))
      then [(max (fst a) (fst b), min (fst a + fst (snd a)) (fst b + fst (snd b)))]
      else [])"

fun consecutive_overlaps :: "speaker_tuple list \<Rightarrow> (real \<times> real) list" where
  "consecutive_overlaps (a # b # rest) = pair_overlap a b @ consecutive_overlaps (b # rest)"
| "consecutive_overlaps _ = []"

fun attributed :: "real \<Rightarrow> (real \<times> real) list \<Rightarrow> real list" where
  "attributed last_end [] = []"
| "attributed last_end ((s, e) # rest) =
     (if s \<le> last_end then e - last_end else e - s) # attributed e rest"

definition final_last_end :: "(real \<times> real) list \<Rightarrow> real" where
  "final_last_end ovs = (if ovs = [] then 0 else snd (last ovs))"

section \<open>Filler words: \<^verbatim>\<open>calculate_filler_word_amount\<close>\<close>

text \<open>
  \<^verbatim>\<open>
  nlp = spacy.load("en_core_web_trf")
  doc = nlp(lines)
  intj_amount = len([token for token in doc if token.pos_ == "INTJ"])
  number_of_words = len(lines.split())
  return intj_amount, intj_amount / number_of_words
  \<close>
  The tagger is external: \<open>nlp\<close> maps the text to the part-of-speech tags of its tokens.
  The true division of two integers raises ZeroDivisionError for a zero divisor.
\<close>

definition calculate_filler_word_amount ::
  "(string \<Rightarrow> string list) \<Rightarrow> string \<Rightarrow> py_error + (nat \<times> real)" where
  "calculate_filler_word_amount nlp lines =
     (let doc = nlp lines;
          intj_amount = length (filter (\<lambda>pos. pos = ''INTJ'') doc);
          number_of_words = length (py_split lines)
      in if number_of_words = 0 then Inl ZeroDivisionError
         else Inr (intj_amount, real intj_amount / real number_of_words))"

section \<open>RTTM serialisation: \<^verbatim>\<open>list_to_rttm_string\<close>\<close>

text \<open>
  \<^verbatim>\<open>
  def list_to_rttm_string(file_id, l):
      return f"SPEAKER {file_id} 1 {l[0]:.2f} {(l[1] - l[0]):.2f} <NA> <NA> {l[2]} <NA> <NA>"
  \<close>
  \<open>format_2f\<close> is the format specification \<^verbatim>\<open>.2f\<close> on an exact number: a minus sign for a
  negative number, then the decimal digits of the number of hundredths, rounded to the
  nearest with ties to even (\<open>round_half_even\<close>), with the point before the last two digits.
  \<open>str_nat\<close> is \<^verbatim>\<open>str\<close> on a natural number.
\<close>

definition digit_char :: "nat \<Rightarrow> char" where
  "digit_char d = ''0123456789'' ! d"

fun str_nat :: "nat \<Rightarrow> string" where
  "str_nat n = (if n < 10 then [digit_char n] else str_nat (n div 10) @ [digit_char (n mod 10)])"

definition round_half_even :: "real \<Rightarrow> int" where
  "round_half_even y =
     (let f = \<lfloor>y\<rfloor> in
      if y - of_int f < 1 / 2 then f
      else if 1 / 2 < y - of_int f then f + 1
      else if even f then f else f + 1)"

definition format_2f :: "real \<Rightarrow> string" where
  "format_2f x =
     (let n = nat (round_half_even (\<bar>x\<bar> * 100)) in
      (if x < 0 then ''-'' else '''') @ str_nat (n div 100) @ ''.'' @
        [digit_char (n div 10 mod 10), digit_char (n mod 10)])"

definition list_to_rttm_string :: "string \<Rightarrow> entry \<Rightarrow> string" where
  "list_to_rttm_string file_id l =
     ''SPEAKER '' @ file_id @ '' 1 '' @ format_2f (start_time l) @ '' '' @
     format_2f (end_time l - start_time l) @ '' <NA> <NA> '' @ speaker l @ '' <NA> <NA>''"

section \<open>Reading a number: the builtin \<^verbatim>\<open>float\<close> on decimal literals\<close>

text \<open>
  \<open>py_float\<close> models \<^verbatim>\<open>float(s)\<close> on the decimal literals \<^verbatim>\<open>[sign] digits [. [digits]]\<close> and
  \<^verbatim>\<open>[sign] . digits\<close>, surrounded by optional whitespace, with their exact value; \<open>None\<close> is
  the ValueError of the builtin. The other spellings that the builtin accepts (an exponent,
  underscores between digits, \<^verbatim>\<open>inf\<close> and \<^verbatim>\<open>nan\<close>, which have no real value) are outside this
  model, and where the builtin returns the double nearest to the numeral, \<open>py_float\<close> returns
  the number the numeral denotes. The functions that call \<^verbatim>\<open>float\<close> take the reader as a
  parameter, and the general statements about them are proved for every reader; \<open>py_float\<close>
  only serves to evaluate them on concrete lines.
\<close>

definition is_digit :: "char \<Rightarrow> bool" where
  "is_digit c = (48 \<le> (of_char c :: nat) \<and> (of_char c :: nat) \<le> 57)"

definition digit_val :: "char \<Rightarrow> nat" where
  "digit_val c = of_char c - 48"

fun nat_of_digits :: "nat \<Rightarrow> string \<Rightarrow> nat" where
  "nat_of_digits acc [] = acc"
| "nat_of_digits acc (c # cs) = nat_of_digits (10 * acc + digit_val c) cs"

definition py_float :: "string \<Rightarrow> real option" where
  "py_float s =
     (let t = py_strip s;
          negative = (t \<noteq> [] \<and> hd t = CHR ''-'');
          u = (if t \<noteq> [] \<and> (hd t = CHR ''-'' \<or> hd t = CHR ''+'') then tl t else t);
          int_part = takeWhile is_digit u;
          rest = dropWhile is_digit u;
          frac_part = (if rest \<noteq> [] \<and> hd rest = CHR ''.'' then tl rest else []);
          well_formed = ((rest = [] \<or> hd rest = CHR ''.'') \<and> list_all is_digit frac_part \<and>
                         (int_part \<noteq> [] \<or> frac_part \<noteq> []));
          magnitude = real (nat_of_digits 0 (int_part @ frac_part)) / 10 ^ length frac_part
      in if well_formed then Some (if negative then - magnitude else magnitude) else None)"

subsection \<open>Vocabulary for the codec\<close>

text \<open>
  \<open>malformed_record\<close>: the line has fewer than 8 whitespace-separated fields, or the reader
  rejects field 3 or field 4. \<open>record_of\<close>: the tuple read from fields 3, 4 and 7.
  \<open>reserialize\<close>: parse one RTTM line and serialise the record read, whose end is
  \<open>start + duration\<close>, again. \<open>plain_word\<close>: a non-empty string without whitespace. \<open>join_spaces\<close>: the words with one
  space between two of them.
\<close>

definition malformed_record :: "(string \<Rightarrow> real option) \<Rightarrow> string \<Rightarrow> bool" where
  "malformed_record float_of line =
     (length (py_split line) < 8 \<or>
      float_of (py_split line ! 3) = None \<or>
      float_of (py_split line ! 4) = None)"

definition record_of :: "(string \<Rightarrow> real option) \<Rightarrow> string \<Rightarrow> speaker_tuple" where
  "record_of float_of line =
     (the (float_of (py_split line ! 3)), the (float_of (py_split line ! 4)), py_split line ! 7)"

definition reserialize :: "string \<Rightarrow> string \<Rightarrow> string option" where
  "reserialize file_id line =
     (case parse_rttm_file py_float [line] of
        Inr [(start, duration, label)] \<Rightarrow>
          Some (list_to_rttm_string file_id (start, start + duration, label))
      | _ \<Rightarrow> None)"

definition plain_word :: "string \<Rightarrow> bool" where
  "plain_word w = (w \<noteq> [] \<and> (\<forall>c \<in> set w. \<not> is_space c))"

fun join_spaces :: "string list \<Rightarrow> string" where
  "join_spaces [] = []"
| "join_spaces [w] = w"
| "join_spaces (w # w' # ws) = w @ CHR '' '' # join_spaces (w' # ws)"

section \<open>Alignment table to RTTM: \<^verbatim>\<open>convert_csv_to_rttm\<close>\<close>

text \<open>
  \<^verbatim>\<open>
  def convert_csv_to_rttm(input_csv_path, output_rttm_path):
      with open(input_csv_path, 'r') as fp:
          input = fp.read()
      file_id = os.path.basename(input_csv_path).split('.')[0]
      words = input.split('\n')[1:]
      words = [w for w in words if w != ""]
      result = {}
      for w in words:
          _, start_time, end_time, _, speaker = w.split(', ')
          start_time = float(start_time)
          end_time = float(end_time)
          if speaker in result:
              result[speaker].append([start_time, end_time, speaker])
          else:
              result[speaker] = [[start_time, end_time, speaker]]
      for speaker in result.keys():
          result[speaker] = merge_close_numbers(result[speaker])
      result = [item for sublist in list(result.values()) for item in sublist]
      result = sorted(result, key=lambda r: r[0])
      rttm_str = [list_to_rttm_string(file_id, r) for r in result]
      rttm_str = '\n'.join(rttm_str)
      with open(output_rttm_path, 'w') as fp:
          fp.write(rttm_str)
  \<close>
  The model takes the path and the text read from it, and returns the text written.
  \<open>split_on sep cur s\<close> is \<^verbatim>\<open>s.split(sep)\<close> for a non-empty separator, with the piece read so
  far in \<open>cur\<close>. The dictionary keeps its keys in the order of their insertion: it is a list
  of pairs with distinct keys. Unpacking a row into five names raises ValueError for any
  other number of pieces. \<^verbatim>\<open>sorted\<close> is stable, as \<open>sort_key\<close> is.
\<close>

function split_on :: "string \<Rightarrow> string \<Rightarrow> string \<Rightarrow> string list" where
  "split_on sep cur [] = [cur]"
| "split_on sep cur (c # cs) =
     (if sep \<noteq> [] \<and> take (length sep) (c # cs) = sep
      then cur # split_on sep [] (drop (length sep) (c # cs))
      else split_on sep (cur @ [c]) cs)"
  by pat_completeness auto
termination
  by (relation "measure (\<lambda>(sep, cur, s). length s)") auto

definition basename :: "string \<Rightarrow> string" where
  "basename path = rev (takeWhile (\<lambda>c. c \<noteq> CHR ''/'') (rev path))"

definition file_id_of :: "string \<Rightarrow> string" where
  "file_id_of input_csv_path = hd (split_on ''.'' [] (basename input_csv_path))"

definition csv_words :: "string \<Rightarrow> string list" where
  "csv_words input = filter (\<lambda>w. w \<noteq> []) (tl (split_on [CHR 0x0A] [] input))"

definition parse_csv_row :: "(string \<Rightarrow> real option) \<Rightarrow> string \<Rightarrow> py_error + entry" where
  "parse_csv_row float_of w =
     (let fields = split_on '', '' [] w in
      if length fields \<noteq> 5 then Inl ValueError
      else (case float_of (fields ! 1) of None \<Rightarrow> Inl ValueError
            | Some start \<Rightarrow>
            (case float_of (fields ! 2) of None \<Rightarrow> Inl ValueError
             | Some end \<Rightarrow> Inr (start, end, fields ! 4))))"

definition dict_add :: "(string \<times> entry list) list \<Rightarrow> entry \<Rightarrow> (string \<times> entry list) list" where
  "dict_add result r =
     (if speaker r \<in> fst ` set result
      then map (\<lambda>(k, v). if k = speaker r then (k, v @ [r]) else (k, v)) result
      else result @ [(speaker r, [r])])"

fun csv_loop ::
  "(string \<Rightarrow> real option) \<Rightarrow> (string \<times> entry list) list \<Rightarrow> string list
     \<Rightarrow> py_error + (string \<times> entry list) list" where
  "csv_loop float_of result [] = Inr result"
| "csv_loop float_of result (w # ws) =
     (case parse_csv_row float_of w of Inl e \<Rightarrow> Inl e
      | Inr r \<Rightarrow> csv_loop float_of (dict_add result r) ws)"

fun merge_groups :: "(string \<times> entry list) list \<Rightarrow> py_error + entry list list" where
  "merge_groups [] = Inr []"
| "merge_groups ((k, v) # rest) =
     (case merge_close_numbers v default_threshold of Inl e \<Rightarrow> Inl e
      | Inr m \<Rightarrow> (case merge_groups rest of Inl e \<Rightarrow> Inl e | Inr ms \<Rightarrow> Inr (m # ms)))"

fun py_join :: "string \<Rightarrow> string list \<Rightarrow> string" where
  "py_join sep [] = []"
| "py_join sep [x] = x"
| "py_join sep (x # y # zs) = x @ sep @ py_join sep (y # zs)"

definition convert_csv_to_rttm ::
  "(string \<Rightarrow> real option) \<Rightarrow> string \<Rightarrow> string \<Rightarrow> py_error + string" where
  "convert_csv_to_rttm float_of input_csv_path input =
     (let file_id = file_id_of input_csv_path;
          words = csv_words input
      in case csv_loop float_of [] words of Inl e \<Rightarrow> Inl e
         | Inr result \<Rightarrow>
         (case merge_groups result of Inl e \<Rightarrow> Inl e
          | Inr merged \<Rightarrow>
              Inr (py_join [CHR 0x0A]
                     (map (list_to_rttm_string file_id)
                        (sort_key start_time (concat merged))))))"

subsection \<open>Vocabulary for the converter\<close>

text \<open>
  \<open>table_rows\<close>: the rows of the table after its header, each read as
  \<open>(start, end, speaker)\<close>, or the error of the first row that cannot be read.
  \<open>first_occurrences\<close>: the distinct elements of a list in the order of their first
  occurrence. \<open>group_of rows sp\<close>: the rows of speaker \<open>sp\<close>, in the order of the table.
  \<open>grouped rows\<close>: the speakers in the order of their first row, each with its group.
  \<open>strip_extension\<close>: a file name without its extension, the extension being the last dot
  and what follows it, where dots at the beginning of the name do not count (the root of
  \<^verbatim>\<open>os.path.splitext\<close>).
\<close>

fun read_rows :: "(string \<Rightarrow> real option) \<Rightarrow> string list \<Rightarrow> py_error + entry list" where
  "read_rows float_of [] = Inr []"
| "read_rows float_of (w # ws) =
     (case parse_csv_row float_of w of Inl e \<Rightarrow> Inl e
      | Inr r \<Rightarrow> (case read_rows float_of ws of Inl e \<Rightarrow> Inl e | Inr rs \<Rightarrow> Inr (r # rs)))"

definition table_rows :: "(string \<Rightarrow> real option) \<Rightarrow> string \<Rightarrow> py_error + entry list" where
  "table_rows float_of input = read_rows float_of (csv_words input)"

fun first_occurrences :: "'a list \<Rightarrow> 'a list" where
  "first_occurrences [] = []"
| "first_occurrences (x # xs) = x # filter (\<lambda>y. y \<noteq> x) (first_occurrences xs)"

definition group_of :: "entry list \<Rightarrow> string \<Rightarrow> entry list" where
  "group_of rows sp = filter (\<lambda>r. speaker r = sp) rows"

definition grouped :: "entry list \<Rightarrow> (string \<times> entry list) list" where
  "grouped rows = map (\<lambda>sp. (sp, group_of rows sp)) (first_occurrences (map speaker rows))"

definition strip_extension :: "string \<Rightarrow> string" where
  "strip_extension name =
     (let lead = takeWhile (\<lambda>c. c = CHR ''.'') name;
          rest = dropWhile (\<lambda>c. c = CHR ''.'') name
      in lead @ (if CHR ''.'' \<in> set rest
                 then rev (tl (dropWhile (\<lambda>c. c \<noteq> CHR ''.'') (rev rest)))
                 else rest))"

section \<open>Properties of the segment merger\<close>

subsection \<open>Empty input\<close>

text \<open>
  Claim C9. Calling the segment merger on an empty sequence fails: the read of \<^verbatim>\<open>l[0]\<close>
  raises (Python's IndexError is the empty-input error), for every threshold, and nothing
  in the function catches it, so the caller receives the error.
\<close>

theorem merge_close_numbers_empty:
  "merge_close_numbers [] threshold = Inl IndexError"
  by (simp add: merge_close_numbers_def)


subsection \<open>The loop, one accumulated record at a time\<close>

text \<open>
  The loop only ever touches the last element of \<^verbatim>\<open>merged_list\<close>, so the elements before it
  can be set aside, and the loop is described by its effect on a one-element accumulator.
\<close>

lemma merge_loop_prefix:
  "merge_loop \<tau> (acc @ [m]) xs = acc @ merge_loop \<tau> [m] xs"
proof (induction xs arbitrary: acc m)
  case Nil
  show ?case by simp
next
  case (Cons i rest)
  show ?case
  proof (cases "start_time i - end_time m < \<tau>")
    case True
    then show ?thesis
      using Cons.IH[of acc "(start_time m, end_time i, speaker m)"]
      by simp
  next
    case False
    then show ?thesis
      using Cons.IH[of "acc @ [m]" i] Cons.IH[of "[m]" i]
      by simp
  qed
qed

lemma merge_loop_single:
  "merge_loop \<tau> [m] (i # rest) =
     (if start_time i - end_time m < \<tau>
      then merge_loop \<tau> [(start_time m, end_time i, speaker m)] rest
      else m # merge_loop \<tau> [i] rest)"
  using merge_loop_prefix[of \<tau> "[m]" i rest] by simp

subsection \<open>The merged list is the list of coalesced runs\<close>

lemma runs_nonempty: "runs \<tau> (x # xs) \<noteq> []"
  by (induction \<tau> "x # xs" arbitrary: x xs rule: runs.induct) (auto split: list.splits)

lemma runs_hd: "runs \<tau> (x # xs) = r # rs \<Longrightarrow> r \<noteq> [] \<and> hd r = x"
  by (induction \<tau> "x # xs" arbitrary: x xs r rs rule: runs.induct) (auto split: list.splits if_splits)

lemma concat_runs: "concat (runs \<tau> l) = l"
  by (induction \<tau> l rule: runs.induct) (auto split: list.splits)

lemma runs_no_empty: "r \<in> set (runs \<tau> l) \<Longrightarrow> r \<noteq> []"
  by (induction \<tau> l arbitrary: r rule: runs.induct) (auto split: list.splits if_splits)

lemma merge_loop_runs:
  "merge_loop \<tau> [(s, end_time x, l)] xs =
     (case runs \<tau> (x # xs) of [] \<Rightarrow> [] | r # rs \<Rightarrow> (s, end_time (last r), l) # map coalesce rs)"
proof (induction xs arbitrary: x s l)
  case Nil
  show ?case by simp
next
  case (Cons i rest)
  obtain r rs where rr: "runs \<tau> (i # rest) = r # rs"
    using runs_nonempty[of \<tau> i rest] by (cases "runs \<tau> (i # rest)") auto
  have r: "r \<noteq> []" "hd r = i" using runs_hd[OF rr] by auto
  show ?case
  proof (cases "start_time i - end_time x < \<tau>")
    case True
    have "merge_loop \<tau> [(s, end_time x, l)] (i # rest) = merge_loop \<tau> [(s, end_time i, l)] rest"
      using True by (simp add: merge_loop_single start_time_def end_time_def speaker_def del: merge_loop.simps(2))
    also have "\<dots> = (s, end_time (last r), l) # map coalesce rs"
      using Cons.IH[of s i l] rr by simp
    finally show ?thesis using True rr r by simp
  next
    case False
    have "merge_loop \<tau> [(s, end_time x, l)] (i # rest) = (s, end_time x, l) # merge_loop \<tau> [i] rest"
      using False by (simp add: merge_loop_single start_time_def end_time_def speaker_def del: merge_loop.simps(2))
    also have "merge_loop \<tau> [i] rest = merge_loop \<tau> [(start_time i, end_time i, speaker i)] rest"
      by (simp add: start_time_def end_time_def speaker_def)
    also have "\<dots> = coalesce r # map coalesce rs"
      using Cons.IH[of "start_time i" i "speaker i"] rr r by (simp add: coalesce_def)
    finally show ?thesis using False rr by simp
  qed
qed

lemma merge_loop_coalesce:
  "merge_loop \<tau> [x] xs = map coalesce (runs \<tau> (x # xs))"
proof -
  obtain r rs where rr: "runs \<tau> (x # xs) = r # rs"
    using runs_nonempty[of \<tau> x xs] by (cases "runs \<tau> (x # xs)") auto
  have r: "r \<noteq> []" "hd r = x" using runs_hd[OF rr] by auto
  have "merge_loop \<tau> [x] xs = merge_loop \<tau> [(start_time x, end_time x, speaker x)] xs"
    by (simp add: start_time_def end_time_def speaker_def)
  then show ?thesis
    using merge_loop_runs[of \<tau> "start_time x" x "speaker x" xs] rr r
    by (simp add: coalesce_def)
qed


lemma runs_chain: "r \<in> set (runs \<tau> l) \<Longrightarrow> successively (gap_below \<tau>) r"
proof (induction \<tau> l arbitrary: r rule: runs.induct)
  case (3 \<tau> x y zs)
  obtain q qs where rr: "runs \<tau> (y # zs) = q # qs"
    using runs_nonempty[of \<tau> y zs] by (cases "runs \<tau> (y # zs)") auto
  have q: "q \<noteq> []" "hd q = y" using runs_hd[OF rr] by auto
  show ?case
  proof (cases "start_time y - end_time x < \<tau>")
    case True
    have "successively (gap_below \<tau>) q" using 3(1)[OF True, of q] rr by simp
    then have "successively (gap_below \<tau>) (x # q)"
      using q True by (cases q) (auto simp: gap_below_def)
    then show ?thesis using 3 True rr by auto
  next
    case False
    then show ?thesis using 3 by auto
  qed
qed auto

lemma runs_separated:
  "successively (\<lambda>r r'. \<not> gap_below \<tau> (last r) (hd r')) (runs \<tau> l)"
proof (induction \<tau> l rule: runs.induct)
  case (3 \<tau> x y zs)
  obtain q qs where rr: "runs \<tau> (y # zs) = q # qs"
    using runs_nonempty[of \<tau> y zs] by (cases "runs \<tau> (y # zs)") auto
  have q: "q \<noteq> []" "hd q = y" using runs_hd[OF rr] by auto
  show ?case
  proof (cases "start_time y - end_time x < \<tau>")
    case True
    then show ?thesis using 3(1)[OF True] rr q by (cases qs) auto
  next
    case False
    then show ?thesis using 3(2)[OF False] rr q by (auto simp: gap_below_def)
  qed
qed auto

subsection \<open>Labels, length, first start and last end\<close>

lemma merge_loop_times:
  "map times xs = map times ys \<Longrightarrow> times m = times m' \<Longrightarrow>
   map times (merge_loop \<tau> [m] xs) = map times (merge_loop \<tau> [m'] ys)"
proof (induction xs arbitrary: ys m m')
  case Nil
  then show ?case by simp
next
  case (Cons i rest)
  then obtain j ys' where ys: "ys = j # ys'" "times i = times j" "map times rest = map times ys'"
    by (cases ys) auto
  have e: "start_time i = start_time j" "end_time i = end_time j"
          "start_time m = start_time m'" "end_time m = end_time m'"
    using ys(2) Cons.prems(2) by (auto simp: times_def)
  show ?case
  proof (cases "start_time i - end_time m < \<tau>")
    case True
    have "times (start_time m, end_time i, speaker m) = times (start_time m', end_time j, speaker m')"
      using e by (simp add: times_def start_time_def end_time_def)
    from Cons.IH[OF ys(3) this] True e show ?thesis
      unfolding ys(1) by (simp add: merge_loop_single del: merge_loop.simps(2))
  next
    case False
    from Cons.IH[OF ys(3) ys(2)] False e Cons.prems(2) show ?thesis
      unfolding ys(1) by (simp add: merge_loop_single del: merge_loop.simps(2))
  qed
qed

lemma merge_loop_length: "length (merge_loop \<tau> [m] xs) \<le> Suc (length xs)"
proof (induction xs arbitrary: m)
  case (Cons i rest)
  show ?case
    using Cons.IH[of "(start_time m, end_time i, speaker m)"] Cons.IH[of i]
    by (simp add: merge_loop_single del: merge_loop.simps(2))
qed simp

lemma merge_loop_hd:
  "merge_loop \<tau> [m] xs \<noteq> [] \<and> start_time (hd (merge_loop \<tau> [m] xs)) = start_time m"
proof (induction xs arbitrary: m)
  case (Cons i rest)
  show ?case
    using Cons.IH[of "(start_time m, end_time i, speaker m)"]
    by (simp add: merge_loop_single start_time_def del: merge_loop.simps(2))
qed simp

lemma merge_loop_last:
  "end_time (last (merge_loop \<tau> [m] xs)) = end_time (last (m # xs))"
proof (induction xs arbitrary: m)
  case (Cons i rest)
  show ?case
    using Cons.IH[of "(start_time m, end_time i, speaker m)"] Cons.IH[of i] merge_loop_hd[of \<tau> i rest]
    by (simp add: merge_loop_single end_time_def del: merge_loop.simps(2))
qed simp

lemma merge_loop_starts:
  "start_time ` set (merge_loop \<tau> [m] xs) \<subseteq> start_time ` set (m # xs)"
proof (induction xs arbitrary: m)
  case (Cons i rest)
  show ?case
    using Cons.IH[of "(start_time m, end_time i, speaker m)"] Cons.IH[of i]
    by (auto simp add: merge_loop_single start_time_def simp del: merge_loop.simps(2))
qed simp

lemma merge_loop_ends:
  "end_time ` set (merge_loop \<tau> [m] xs) \<subseteq> end_time ` set (m # xs)"
proof (induction xs arbitrary: m)
  case (Cons i rest)
  show ?case
    using Cons.IH[of "(start_time m, end_time i, speaker m)"] Cons.IH[of i]
    by (auto simp add: merge_loop_single end_time_def simp del: merge_loop.simps(2))
qed simp


subsection \<open>Claims about the merger\<close>

text \<open>
  Claim C1. For every non-empty list of \<open>(start, end, label)\<close> records and every gap
  threshold, the merger returns the coalesced maximal runs of the input: the input is cut
  (without reordering) into runs, inside a run every two consecutive records have a gap
  \<open>next.start - current.end\<close> strictly below the threshold, between two runs the gap is not
  below it, and each run becomes the one record with the start and label of its first
  record and the end of its last record (a run of one record passes through unchanged).
  With the default threshold, \<open>[(0.0,1.0,A), (1.3,2.0,A), (5.0,6.0,A)]\<close> yields
  \<open>[(0.0,2.0,A), (5.0,6.0,A)]\<close>.
\<close>

theorem merge_close_numbers_runs:
  "(l \<noteq> [] \<longrightarrow>
      merge_close_numbers l \<tau> = Inr (map coalesce (runs \<tau> l)) \<and>
      concat (runs \<tau> l) = l \<and>
      (\<forall>r \<in> set (runs \<tau> l). r \<noteq> [] \<and> successively (gap_below \<tau>) r) \<and>
      successively (\<lambda>r r'. \<not> gap_below \<tau> (last r) (hd r')) (runs \<tau> l)) \<and>
   merge_close_numbers [(0, 1, ''A''), (1.3, 2, ''A''), (5, 6, ''A'')] default_threshold
     = Inr [(0, 2, ''A''), (5, 6, ''A'')]"
proof -
  have "merge_close_numbers l \<tau> = Inr (map coalesce (runs \<tau> l))" if "l \<noteq> []"
    using that by (cases l) (simp_all add: merge_close_numbers_def merge_loop_coalesce)
  moreover have "merge_close_numbers [(0, 1, ''A''), (1.3, 2, ''A''), (5, 6, ''A'')] default_threshold
     = Inr [(0, 2, ''A''), (5, 6, ''A'')]"
    by (simp add: merge_close_numbers_def default_threshold_def start_time_def end_time_def speaker_def)
  ultimately show ?thesis
    using concat_runs[of \<tau> l] runs_no_empty[of _ \<tau> l] runs_chain[of _ \<tau> l] runs_separated[of \<tau> l]
    by blast
qed

theorem merge_close_numbers_runs_witness:
  "[(0, 1, ''A''), (1.2, 2, ''B''), (2.1, 3, ''A''), (4, 5, ''C'')] \<noteq> ([] :: entry list) \<and>
   merge_close_numbers [(0, 1, ''A''), (1.2, 2, ''B''), (2.1, 3, ''A''), (4, 5, ''C'')] 0.5
     = Inr [(0, 3, ''A''), (4, 5, ''C'')] \<and>
   runs 0.5 [(0, 1, ''A''), (1.2, 2, ''B''), (2.1, 3, ''A''), (4, 5, ''C'')]
     = [[(0, 1, ''A''), (1.2, 2, ''B''), (2.1, 3, ''A'')], [(4, 5, ''C'')]]"
  using merge_close_numbers_runs[of "[(0, 1, ''A''), (1.2, 2, ''B''), (2.1, 3, ''A''), (4, 5, ''C'')]" "0.5"]
  by (simp add: coalesce_def start_time_def end_time_def speaker_def)

text \<open>
  Claim C4, as the code has it. The merged list is never longer than the (non-empty)
  input. The total span \<open>max(end) - min(start)\<close> is preserved when the first record has the
  smallest start and the last record has the largest end, as in a sequence whose starts and
  ends both ascend. Without the condition on the ends it is not: the merger overwrites the
  end of the accumulated record with the end of the record it absorbs, also with a smaller
  one, and \<open>[(0,10,A), (1,2,A)]\<close>, ordered by start, merges to \<open>[(0,2,A)]\<close>, of span 2
  instead of 10.
\<close>

theorem merge_close_numbers_span:
  "l \<noteq> [] \<longrightarrow>
     (\<exists>out. merge_close_numbers l \<tau> = Inr out \<and> length out \<le> length l \<and>
        ((\<forall>r \<in> set l. start_time (hd l) \<le> start_time r) \<and>
         (\<forall>r \<in> set l. end_time r \<le> end_time (last l))
         \<longrightarrow> total_span out = total_span l))"
proof
  assume "l \<noteq> []"
  then obtain x xs where l: "l = x # xs" by (cases l) auto
  define out where "out = merge_loop \<tau> [x] xs"
  have m: "merge_close_numbers l \<tau> = Inr out"
    by (simp add: l out_def merge_close_numbers_def)
  have len: "length out \<le> length l"
    using merge_loop_length[of \<tau> x xs] by (simp add: l out_def)
  have ne: "out \<noteq> []" and hd: "start_time (hd out) = start_time x"
    using merge_loop_hd[of \<tau> x xs] by (simp_all add: out_def)
  have lst: "end_time (last out) = end_time (last l)"
    using merge_loop_last[of \<tau> x xs] by (simp add: l out_def)
  have sub_s: "start_time ` set out \<subseteq> start_time ` set l"
    using merge_loop_starts[of \<tau> x xs] by (simp add: l out_def)
  have sub_e: "end_time ` set out \<subseteq> end_time ` set l"
    using merge_loop_ends[of \<tau> x xs] by (simp add: l out_def)
  have span: "total_span out = total_span l"
    if lo: "\<forall>r \<in> set l. start_time (hd l) \<le> start_time r"
    and hi: "\<forall>r \<in> set l. end_time r \<le> end_time (last l)"
  proof -
    have "Min (start_time ` set l) = start_time x"
      using lo by (intro Min_eqI) (auto simp: l)
    moreover have "Min (start_time ` set out) = start_time x"
    proof (intro Min_eqI)
      show "finite (start_time ` set out)" by simp
      show "start_time x \<le> y" if "y \<in> start_time ` set out" for y
        using that sub_s lo by (auto simp: l)
      show "start_time x \<in> start_time ` set out"
        using ne hd by (metis hd_in_set imageI)
    qed
    moreover have "Max (end_time ` set l) = end_time (last l)"
      using hi \<open>l \<noteq> []\<close> by (intro Max_eqI) auto
    moreover have "Max (end_time ` set out) = end_time (last l)"
    proof (intro Max_eqI)
      show "finite (end_time ` set out)" by simp
      show "y \<le> end_time (last l)" if "y \<in> end_time ` set out" for y
        using that sub_e hi by auto
      show "end_time (last l) \<in> end_time ` set out"
        using ne lst by (metis last_in_set imageI)
    qed
    ultimately show ?thesis by (simp add: total_span_def)
  qed
  show "\<exists>out. merge_close_numbers l \<tau> = Inr out \<and> length out \<le> length l \<and>
        ((\<forall>r \<in> set l. start_time (hd l) \<le> start_time r) \<and>
         (\<forall>r \<in> set l. end_time r \<le> end_time (last l))
         \<longrightarrow> total_span out = total_span l)"
    using m len span by blast
qed

theorem merge_close_numbers_span_counterexample:
  "merge_close_numbers [(0, 10, ''A''), (1, 2, ''A'')] default_threshold = Inr [(0, 2, ''A'')] \<and>
   total_span [(0, 10, ''A''), (1, 2, ''A'')] = 10 \<and>
   total_span [(0, 2, ''A'')] = 2"
  by (simp add: merge_close_numbers_def default_threshold_def total_span_def
        start_time_def end_time_def speaker_def)

theorem merge_close_numbers_span_witness:
  "[(0, 1, ''A''), (1.3, 2, ''A''), (5, 6, ''A'')] \<noteq> ([] :: entry list) \<and>
   merge_close_numbers [(0, 1, ''A''), (1.3, 2, ''A''), (5, 6, ''A'')] 0.5
     = Inr [(0, 2, ''A''), (5, 6, ''A'')] \<and>
   total_span [(0, 2, ''A''), (5, 6, ''A'')] = 6 \<and>
   total_span [(0, 1, ''A''), (1.3, 2, ''A''), (5, 6, ''A'')] = 6"
  using merge_close_numbers_span[of "[(0, 1, ''A''), (1.3, 2, ''A''), (5, 6, ''A'')]" "0.5"]
  by (simp add: merge_close_numbers_def total_span_def start_time_def end_time_def speaker_def)

text \<open>
  Claim C10. The merger decides by the time fields only: two non-empty inputs with the same
  times and any labels are merged at the same places (the outputs have the same times);
  two records with a gap below the threshold are coalesced whatever their labels, keeping
  the first label; and every output record has the start and the label of the first
  record of its run.
\<close>

theorem merge_close_numbers_labels:
  "l \<noteq> [] \<and> map times l = map times l' \<longrightarrow>
     (\<exists>out out'. merge_close_numbers l \<tau> = Inr out \<and> merge_close_numbers l' \<tau> = Inr out' \<and>
        map times out = map times out' \<and>
        map (\<lambda>r. (start_time r, speaker r)) out
          = map (\<lambda>run. (start_time (hd run), speaker (hd run))) (runs \<tau> l)) \<and>
     (\<forall>a b. gap_below \<tau> a b \<longrightarrow>
        merge_close_numbers [a, b] \<tau> = Inr [(start_time a, end_time b, speaker a)])"
proof (intro impI conjI allI)
  assume a: "l \<noteq> [] \<and> map times l = map times l'"
  then obtain x xs where l: "l = x # xs" by (cases l) auto
  with a obtain y ys where l': "l' = y # ys" "times x = times y" "map times xs = map times ys"
    by (cases l') auto
  have "map times (merge_loop \<tau> [x] xs) = map times (merge_loop \<tau> [y] ys)"
    using merge_loop_times[OF l'(3) l'(2)] .
  moreover have "map (\<lambda>r. (start_time r, speaker r)) (merge_loop \<tau> [x] xs)
      = map (\<lambda>run. (start_time (hd run), speaker (hd run))) (runs \<tau> l)"
    by (simp add: merge_loop_coalesce l coalesce_def start_time_def speaker_def)
  ultimately show "\<exists>out out'. merge_close_numbers l \<tau> = Inr out \<and> merge_close_numbers l' \<tau> = Inr out' \<and>
        map times out = map times out' \<and>
        map (\<lambda>r. (start_time r, speaker r)) out
          = map (\<lambda>run. (start_time (hd run), speaker (hd run))) (runs \<tau> l)"
    by (simp add: merge_close_numbers_def l l')
next
  fix a b
  assume "gap_below \<tau> a b"
  then show "merge_close_numbers [a, b] \<tau> = Inr [(start_time a, end_time b, speaker a)]"
    by (simp add: merge_close_numbers_def gap_below_def)
qed

theorem merge_close_numbers_labels_witness:
  "[(0, 1, ''A''), (1.3, 2, ''B''), (5, 6, ''C'')] \<noteq> ([] :: entry list) \<and>
   map times [(0, 1, ''A''), (1.3, 2, ''B''), (5, 6, ''C'')]
     = map times [(0, 1, ''X''), (1.3, 2, ''X''), (5, 6, ''X'')] \<and>
   merge_close_numbers [(0, 1, ''A''), (1.3, 2, ''B''), (5, 6, ''C'')] 0.5
     = Inr [(0, 2, ''A''), (5, 6, ''C'')] \<and>
   merge_close_numbers [(0, 1, ''X''), (1.3, 2, ''X''), (5, 6, ''X'')] 0.5
     = Inr [(0, 2, ''X''), (5, 6, ''X'')] \<and>
   gap_below 0.5 (0, 1, ''A'') (1.3, 2, ''B'') \<and>
   merge_close_numbers [(0, 1, ''A''), (1.3, 2, ''B'')] 0.5 = Inr [(0, 2, ''A'')]"
  using merge_close_numbers_labels[of "[(0, 1, ''A''), (1.3, 2, ''B''), (5, 6, ''C'')]"
          "[(0, 1, ''X''), (1.3, 2, ''X''), (5, 6, ''X'')]" "0.5"]
  by (simp add: merge_close_numbers_def times_def gap_below_def start_time_def end_time_def speaker_def)

section \<open>Properties of the overlap analyzer\<close>

subsection \<open>The two loops\<close>

lemma overlap_step_pair:
  "overlap_step info acc i = acc @ pair_overlap (info ! i) (info ! Suc i)"
  by (simp add: overlap_step_def pair_overlap_def Let_def)

lemma fold_overlap_step:
  "fold (\<lambda>i acc. overlap_step info acc i) idxs acc
     = acc @ concat (map (\<lambda>i. pair_overlap (info ! i) (info ! Suc i)) idxs)"
  by (induction idxs arbitrary: acc) (simp_all add: overlap_step_pair)

lemma concat_pairs_consecutive:
  "concat (map (\<lambda>i. pair_overlap (info ! i) (info ! Suc i)) [0 ..< length info - Suc 0])
     = consecutive_overlaps info"
proof (induction info rule: consecutive_overlaps.induct)
  case (1 a b rest)
  have "[0 ..< length (a # b # rest) - Suc 0] = 0 # map Suc [0 ..< length (b # rest) - Suc 0]"
    by (simp add: upt_conv_Cons map_Suc_upt del: upt_Suc)
  then show ?case using 1 by (simp add: comp_def del: upt_Suc)
qed simp_all

lemma collect_overlaps_consecutive: "collect_overlaps info = consecutive_overlaps info"
  by (simp add: collect_overlaps_def fold_overlap_step concat_pairs_consecutive)

lemma accumulate_attributed:
  "accumulate last_end acc ovs
     = (if ovs = [] then last_end else snd (last ovs), acc @ attributed last_end ovs)"
  by (induction ovs arbitrary: last_end acc) (auto split: prod.splits)

lemma attributed_Nil: "attributed le ovs = [] \<longleftrightarrow> ovs = []"
  by (cases ovs) auto

lemma overlap_of_speaker_info_eq:
  "overlap_of_speaker_info info =
     (if consecutive_overlaps info = [] then Inr (0, 0)
      else if final_last_end (consecutive_overlaps info) = 0 then Inl ZeroDivisionError
      else Inr (sum_list (attributed 0 (consecutive_overlaps info)),
                sum_list (attributed 0 (consecutive_overlaps info))
                  / final_last_end (consecutive_overlaps info)))"
  by (simp add: overlap_of_speaker_info_def collect_overlaps_consecutive accumulate_attributed
        attributed_Nil final_last_end_def Let_def)

subsection \<open>The intervals of an input whose ends ascend\<close>

lemma consecutive_overlaps_starts:
  "x \<in> set (consecutive_overlaps info) \<Longrightarrow> fst x < snd x \<and> fst x \<in> fst ` set info"
  by (induction info rule: consecutive_overlaps.induct)
     (auto simp: pair_overlap_def max_def split: if_splits)

lemma consecutive_overlaps_ends_lower:
  "\<forall>r \<in> set info. m \<le> fst r + fst (snd r) \<Longrightarrow> x \<in> set (consecutive_overlaps info)
   \<Longrightarrow> m \<le> snd x"
  by (induction info rule: consecutive_overlaps.induct)
     (auto simp: pair_overlap_def split: if_splits)

lemma consecutive_overlaps_ends_sorted:
  "sorted (map (\<lambda>r. fst r + fst (snd r)) info) \<Longrightarrow> sorted (map snd (consecutive_overlaps info))"
proof (induction info rule: consecutive_overlaps.induct)
  case (1 a b rest)
  have s: "sorted (map (\<lambda>r. fst r + fst (snd r)) (b # rest))" using 1(2) by simp
  have "\<forall>r \<in> set (b # rest). fst b + fst (snd b) \<le> fst r + fst (snd r)"
    using s by auto
  then have low: "\<forall>x \<in> set (consecutive_overlaps (b # rest)). fst b + fst (snd b) \<le> snd x"
    using consecutive_overlaps_ends_lower by blast
  have "\<forall>y \<in> set (pair_overlap a b). snd y \<le> fst b + fst (snd b)"
    by (auto simp: pair_overlap_def split: if_splits)
  then have "\<forall>y \<in> set (pair_overlap a b). \<forall>x \<in> set (consecutive_overlaps (b # rest)). snd y \<le> snd x"
    using low by fastforce
  moreover have "sorted (map snd (pair_overlap a b))"
    by (simp add: pair_overlap_def)
  ultimately show ?case using 1(1)[OF s] by (simp add: sorted_append)
qed simp_all

lemma attributed_nonneg:
  "sorted (map snd ovs) \<Longrightarrow> \<forall>x \<in> set ovs. fst x < snd x \<Longrightarrow> \<forall>x \<in> set ovs. le \<le> snd x
   \<Longrightarrow> \<forall>a \<in> set (attributed le ovs). 0 \<le> a"
proof (induction ovs arbitrary: le)
  case Nil
  show ?case by simp
next
  case (Cons x ovs)
  obtain s e where x: "x = (s, e)" by (cases x)
  have "s < e" "le \<le> e" using Cons.prems(2,3) by (simp_all add: x)
  then have a: "0 \<le> (if s \<le> le then e - le else e - s)" by simp
  have "\<forall>a \<in> set (attributed e ovs). 0 \<le> a"
    using Cons.prems by (intro Cons.IH) (auto simp: x)
  then show ?case using a by (simp add: x)
qed

lemma final_last_end_positive:
  assumes "\<forall>r \<in> set info. 0 \<le> fst r" "consecutive_overlaps info \<noteq> []"
  shows "0 < final_last_end (consecutive_overlaps info)"
proof -
  have "last (consecutive_overlaps info) \<in> set (consecutive_overlaps info)"
    using assms(2) by simp
  from consecutive_overlaps_starts[OF this] assms show ?thesis
    by (auto simp: final_last_end_def)
qed

subsection \<open>Claims about the overlap analyzer\<close>

text \<open>
  Claim C2. For every list of segments the analyzer collects, over the consecutive pairs
  \<open>(i, i+1)\<close> in order, the interval \<open>[max(start_i, start_j), min(end_i, end_j)]\<close> whenever
  \<open>overlap_start < overlap_end\<close>; with \<open>last_end\<close> starting at 0 it attributes to each
  interval \<open>(s, e)\<close> the duration \<open>e - last_end\<close> if \<open>s \<le> last_end\<close> and \<open>e - s\<close> otherwise,
  and sets \<open>last_end\<close> to \<open>e\<close>. The total is the sum of the attributed durations; the
  relative overlap is the total divided by the final \<open>last_end\<close>, and \<open>0.0\<close> when no
  interval qualified. With start times that are not negative the final \<open>last_end\<close> of a
  non-empty collection is positive, so the division is defined (a zero \<open>last_end\<close> makes
  the division raise). The scenario \<open>[(0.0,2.0,A), (1.0,3.0,B), (4.0,5.0,C)]\<close> yields total
  \<open>1.0\<close> and relative \<open>0.5\<close>, both with the triples read as \<open>(start, end, label)\<close>, whose
  RTTM durations are \<open>2, 2, 1\<close>, and with the triples read as the analyzer's
  \<open>(start, duration, label)\<close>.
\<close>

theorem overlap_of_speaker_info_rule:
  "overlap_of_speaker_info info =
     (if consecutive_overlaps info = [] then Inr (0, 0)
      else if final_last_end (consecutive_overlaps info) = 0 then Inl ZeroDivisionError
      else Inr (sum_list (attributed 0 (consecutive_overlaps info)),
                sum_list (attributed 0 (consecutive_overlaps info))
                  / final_last_end (consecutive_overlaps info))) \<and>
   ((\<forall>r \<in> set info. 0 \<le> fst r) \<and> consecutive_overlaps info \<noteq> []
      \<longrightarrow> 0 < final_last_end (consecutive_overlaps info)) \<and>
   overlap_of_speaker_info [(0, 2, ''A''), (1, 2, ''B''), (4, 1, ''C'')] = Inr (1, 1 / 2) \<and>
   overlap_of_speaker_info [(0, 2, ''A''), (1, 3, ''B''), (4, 5, ''C'')] = Inr (1, 1 / 2)"
proof -
  have "overlap_of_speaker_info [(0, 2, ''A''), (1, 2, ''B''), (4, 1, ''C'')] = Inr (1, 1 / 2)"
    by (simp add: overlap_of_speaker_info_def collect_overlaps_def overlap_step_def)
  moreover have "overlap_of_speaker_info [(0, 2, ''A''), (1, 3, ''B''), (4, 5, ''C'')] = Inr (1, 1 / 2)"
    by (simp add: overlap_of_speaker_info_def collect_overlaps_def overlap_step_def)
  ultimately show ?thesis
    using overlap_of_speaker_info_eq[of info] final_last_end_positive[of info] by blast
qed

theorem overlap_of_speaker_info_rule_witness:
  "list_all (\<lambda>r. 0 \<le> fst r) [(0, 10, ''A''), (1, 9, ''B''), (2, 1, ''C''), (7, 1, ''A'') :: speaker_tuple] \<and>
   consecutive_overlaps [(0, 10, ''A''), (1, 9, ''B''), (2, 1, ''C''), (7, 1, ''A'')]
     = [(1, 10), (2, 3)] \<and>
   attributed 0 [(1, 10), (2, 3)] = [9, - 7] \<and>
   final_last_end [(1, 10), (2, 3)] = 3 \<and>
   overlap_of_speaker_info [(0, 10, ''A''), (1, 9, ''B''), (2, 1, ''C''), (7, 1, ''A'')]
     = Inr (2, 2 / 3)"
  using overlap_of_speaker_info_rule[of "[(0, 10, ''A''), (1, 9, ''B''), (2, 1, ''C''), (7, 1, ''A'')]"]
  by (simp add: pair_overlap_def final_last_end_def)

text \<open>
  Claim C6, as the code has it. For every input sequence whose start times are not
  negative and whose segment ends \<open>start + duration\<close> ascend, every duration the analyzer
  attributes is \<open>\<ge> 0\<close>, so the total overlap is \<open>\<ge> 0\<close>, and the relative overlap is
  \<open>\<ge> 0\<close>. Each attributed duration is then a difference \<open>e - last_end\<close> with
  \<open>last_end \<le> e\<close> or a difference \<open>e - s\<close> with \<open>s < e\<close>, and the total is a sum of such
  numbers: the signs are the same whether the differences and the sum are exact or
  rounded. Without the condition on the ends the rule attributes \<open>e - last_end\<close> with
  \<open>e < last_end\<close>: for \<open>[(5,20,A), (1,10,B), (0,2,C)]\<close> (as start, end, label) the total is
  \<open>-3\<close> and the relative overlap \<open>-1.5\<close>, with a final \<open>last_end\<close> of \<open>2\<close>.
\<close>

theorem overlap_nonnegative:
  "sorted (map (\<lambda>r. fst r + fst (snd r)) info) \<and> (\<forall>r \<in> set info. 0 \<le> fst r) \<longrightarrow>
     (\<exists>total relative. overlap_of_speaker_info info = Inr (total, relative) \<and>
        0 \<le> total \<and> 0 \<le> relative) \<and>
     (\<forall>a \<in> set (snd (accumulate 0 [] (collect_overlaps info))). 0 \<le> a)"
proof
  assume a: "sorted (map (\<lambda>r. fst r + fst (snd r)) info) \<and> (\<forall>r \<in> set info. 0 \<le> fst r)"
  define ovs where "ovs = consecutive_overlaps info"
  define total where "total = sum_list (attributed 0 ovs)"
  have iv: "\<forall>x \<in> set ovs. fst x < snd x \<and> 0 \<le> fst x"
    using consecutive_overlaps_starts[of _ info] a unfolding ovs_def by fastforce
  have srt: "sorted (map snd ovs)"
    using consecutive_overlaps_ends_sorted[of info] a by (simp add: ovs_def)
  have nn: "\<forall>a \<in> set (attributed 0 ovs). 0 \<le> a"
    using iv by (intro attributed_nonneg[OF srt]) fastforce+
  have tot: "0 \<le> total"
    unfolding total_def using nn by (intro sum_list_nonneg) simp
  have res: "\<exists>total relative. overlap_of_speaker_info info = Inr (total, relative) \<and>
        0 \<le> total \<and> 0 \<le> relative"
  proof (cases "ovs = []")
    case True
    then show ?thesis by (simp add: overlap_of_speaker_info_eq ovs_def)
  next
    case False
    then have pos: "0 < final_last_end ovs"
      using final_last_end_positive[of info] a by (simp add: ovs_def)
    have "overlap_of_speaker_info info = Inr (total, total / final_last_end ovs)"
      using False pos by (simp add: overlap_of_speaker_info_eq ovs_def total_def)
    moreover have "0 \<le> total / final_last_end ovs" using tot pos by simp
    ultimately show ?thesis using tot by blast
  qed
  have "snd (accumulate 0 [] (collect_overlaps info)) = attributed 0 ovs"
    by (simp add: collect_overlaps_consecutive accumulate_attributed ovs_def)
  then show "(\<exists>total relative. overlap_of_speaker_info info = Inr (total, relative) \<and>
        0 \<le> total \<and> 0 \<le> relative) \<and>
     (\<forall>a \<in> set (snd (accumulate 0 [] (collect_overlaps info))). 0 \<le> a)"
    using res nn by simp
qed

theorem overlap_nonnegative_witness:
  "sorted (map (\<lambda>r. fst r + fst (snd r)) [(0, 1, ''A''), (1 / 2, 1, ''B''), (1, 5 / 2, ''C'') :: speaker_tuple]) \<and>
   list_all (\<lambda>r. 0 \<le> fst r) [(0, 1, ''A''), (1 / 2, 1, ''B''), (1, 5 / 2, ''C'') :: speaker_tuple] \<and>
   accumulate 0 [] (collect_overlaps [(0, 1, ''A''), (1 / 2, 1, ''B''), (1, 5 / 2, ''C'')])
     = (3 / 2, [1 / 2, 1 / 2]) \<and>
   overlap_of_speaker_info [(0, 1, ''A''), (1 / 2, 1, ''B''), (1, 5 / 2, ''C'')] = Inr (1, 2 / 3)"
  using overlap_nonnegative[of "[(0, 1, ''A''), (1 / 2, 1, ''B''), (1, 5 / 2, ''C'')]"]
  by (simp add: overlap_of_speaker_info_def collect_overlaps_def overlap_step_def)

theorem overlap_bounds_counterexample:
  "overlap_of_speaker_info [(5, 15, ''A''), (1, 9, ''B''), (0, 2, ''C'')] = Inr (- 3, - 3 / 2) \<and>
   accumulate 0 [] (collect_overlaps [(5, 15, ''A''), (1, 9, ''B''), (0, 2, ''C'')])
     = (2, [5, - 8])"
  by (simp add: overlap_of_speaker_info_def collect_overlaps_def overlap_step_def)

text \<open>
  Claim C5. The relative overlap is guarded: without a qualifying overlap the analyzer
  returns \<open>0.0\<close> and does not divide. The relative amount of filler words is not: on a text
  without words (empty, or whitespace only) \<^verbatim>\<open>intj_amount / number_of_words\<close> divides by
  zero and the function raises ZeroDivisionError, whatever the tagger returns.
\<close>

theorem filler_word_zero_division:
  "calculate_filler_word_amount nlp [] = Inl ZeroDivisionError \<and>
   calculate_filler_word_amount nlp ''  '' = Inl ZeroDivisionError \<and>
   overlap_of_speaker_info [] = Inr (0, 0) \<and>
   overlap_of_speaker_info [(0, 1, ''A''), (2, 1, ''B'')] = Inr (0, 0)"
  by (simp add: calculate_filler_word_amount_def py_split_def is_space_def
        overlap_of_speaker_info_def collect_overlaps_def overlap_step_def)

section \<open>Properties of the RTTM codec\<close>

subsection \<open>Stripping a line does not change its fields\<close>

lemma split_words_spaces:
  "\<forall>c \<in> set s. is_space c \<Longrightarrow> split_words cur s = (if cur = [] then [] else [cur])"
  by (induction s arbitrary: cur) auto

lemma split_words_dropWhile:
  "split_words [] (dropWhile is_space s) = split_words [] s"
  by (induction s) auto

lemma strip_right_Cons:
  "rev (dropWhile is_space (rev (c # cs))) =
     (if \<forall>x \<in> set (c # cs). is_space x then [] else c # rev (dropWhile is_space (rev cs)))"
  by (auto simp: dropWhile_append)

lemma split_words_strip_right:
  "split_words cur (rev (dropWhile is_space (rev s))) = split_words cur s"
proof (induction s arbitrary: cur)
  case Nil
  show ?case by simp
next
  case (Cons c cs)
  show ?case
  proof (cases "\<forall>x \<in> set (c # cs). is_space x")
    case True
    then show ?thesis
      using split_words_spaces[of "c # cs" cur] by (simp only: strip_right_Cons if_True) simp
  next
    case False
    then show ?thesis
      using Cons.IH by (simp only: strip_right_Cons if_False) simp
  qed
qed

lemma py_split_strip: "py_split (py_strip s) = py_split s"
  by (simp add: py_split_def py_strip_def split_words_strip_right split_words_dropWhile)

subsection \<open>Parsing succeeds exactly on well-formed lines\<close>

lemma parse_rttm_line_ok:
  "\<not> malformed_record float_of line \<Longrightarrow>
   parse_rttm_line float_of line = Inr (record_of float_of line)"
  by (auto simp: parse_rttm_line_def malformed_record_def record_of_def py_split_strip py_index_def Let_def)

lemma parse_rttm_line_bad:
  "malformed_record float_of line \<Longrightarrow>
   parse_rttm_line float_of line = Inl IndexError \<or> parse_rttm_line float_of line = Inl ValueError"
  by (auto simp: parse_rttm_line_def malformed_record_def py_split_strip py_index_def Let_def
           split: option.splits)

lemma parse_rttm_loop_ok:
  "\<forall>line \<in> set lines. \<not> malformed_record float_of line \<Longrightarrow>
   parse_rttm_loop float_of acc lines = Inr (acc @ map (record_of float_of) lines)"
  by (induction lines arbitrary: acc) (simp_all add: parse_rttm_line_ok)

lemma parse_rttm_loop_bad:
  "\<exists>line \<in> set lines. malformed_record float_of line \<Longrightarrow>
   parse_rttm_loop float_of acc lines = Inl IndexError \<or>
   parse_rttm_loop float_of acc lines = Inl ValueError"
proof (induction lines arbitrary: acc)
  case Nil
  then show ?case by simp
next
  case (Cons line rest)
  show ?case
  proof (cases "malformed_record float_of line")
    case True
    then show ?thesis using parse_rttm_line_bad[OF True] by auto
  next
    case False
    then have "\<exists>l \<in> set rest. malformed_record float_of l" using Cons.prems by auto
    from Cons.IH[OF this] show ?thesis by (simp add: parse_rttm_line_ok[OF False])
  qed
qed

text \<open>
  Claim C8. Parsing fails exactly when some line has fewer than 8 whitespace-separated
  fields or a time field (index 3 or 4) that the reader of numbers rejects; the failure is
  the IndexError of the missing field or the ValueError of \<^verbatim>\<open>float\<close>, the code's malformed
  record errors. On well-formed input the result has one record per line, in order, with
  start, duration and label read from fields 3, 4 and 7; the end of a record is
  \<open>start + duration\<close>, as \<open>overlap_step\<close> computes it. This holds for every reader of numbers.
\<close>

theorem parse_rttm_file_malformed:
  "((\<exists>e. parse_rttm_file float_of lines = Inl e)
      \<longleftrightarrow> (\<exists>line \<in> set lines. malformed_record float_of line)) \<and>
   (\<forall>e. parse_rttm_file float_of lines = Inl e \<longrightarrow> e = IndexError \<or> e = ValueError) \<and>
   ((\<forall>line \<in> set lines. \<not> malformed_record float_of line) \<longrightarrow>
      parse_rttm_file float_of lines = Inr (map (record_of float_of) lines))"
proof (cases "\<exists>line \<in> set lines. malformed_record float_of line")
  case True
  then show ?thesis
    using parse_rttm_loop_bad[OF True, of "[]"] by (auto simp: parse_rttm_file_def)
next
  case False
  then show ?thesis
    using parse_rttm_loop_ok[of lines float_of "[]"] by (auto simp: parse_rttm_file_def)
qed




subsection \<open>Two-decimal numerals are plain words\<close>

declare str_nat.simps [simp del]

lemma digit_cases: "d < 10 \<Longrightarrow> d \<in> {0, 1, 2, 3, 4, 5, 6, 7, 8, 9 :: nat}"
  by auto

lemma digit_char_digit: "d < 10 \<Longrightarrow> is_digit (digit_char d)"
  using digit_cases[of d] by (auto simp: digit_char_def is_digit_def)

lemma digit_not_space: "is_digit c \<Longrightarrow> \<not> is_space c"
  by (auto simp: is_digit_def is_space_def)

lemma str_nat_digits: "str_nat n \<noteq> [] \<and> (\<forall>c \<in> set (str_nat n). is_digit c)"
proof (induction n rule: str_nat.induct)
  case (1 n)
  show ?case
  proof (cases "n < 10")
    case True
    then show ?thesis by (simp add: str_nat.simps[of n] digit_char_digit)
  next
    case False
    then show ?thesis using 1 by (simp add: str_nat.simps[of n] digit_char_digit)
  qed
qed

lemma format_2f_plain: "plain_word (format_2f x)"
proof -
  define n where "n = nat (round_half_even (\<bar>x\<bar> * 100))"
  define sign where "sign = (if x < 0 then ''-'' else [])"
  have shape: "format_2f x =
      sign @ str_nat (n div 100) @ CHR ''.'' # [digit_char (n div 10 mod 10), digit_char (n mod 10)]"
    by (simp add: format_2f_def Let_def n_def sign_def)
  have a: "\<forall>c \<in> set (str_nat (n div 100)). \<not> is_space c"
    using str_nat_digits[of "n div 100"] digit_not_space by blast
  have b: "\<not> is_space (digit_char (n div 10 mod 10))" "\<not> is_space (digit_char (n mod 10))"
    by (simp_all add: digit_not_space digit_char_digit)
  have c: "\<not> is_space CHR ''.''" by (simp add: is_space_def)
  have d: "\<forall>c \<in> set sign. \<not> is_space c" by (simp add: sign_def is_space_def)
  show ?thesis
    unfolding plain_word_def shape using a b c d by auto
qed

subsection \<open>The fields of a serialised record\<close>

lemma split_words_plain:
  "\<forall>c \<in> set w. \<not> is_space c \<Longrightarrow> split_words cur (w @ rest) = split_words (cur @ w) rest"
  by (induction w arbitrary: cur) simp_all

lemma py_split_join_spaces:
  "list_all plain_word ws \<Longrightarrow> py_split (join_spaces ws) = ws"
proof (induction ws rule: join_spaces.induct)
  case 1
  show ?case by (simp add: py_split_def)
next
  case (2 w)
  then show ?case
    using split_words_plain[of w "[]" "[]"] by (simp add: py_split_def plain_word_def)
next
  case (3 w w' ws)
  then show ?case
    using split_words_plain[of w "[]" "CHR '' '' # join_spaces (w' # ws)"]
    by (simp add: py_split_def plain_word_def is_space_def)
qed

lemma list_to_rttm_string_fields:
  "list_to_rttm_string file_id l =
     join_spaces [''SPEAKER'', file_id, ''1'', format_2f (start_time l),
       format_2f (end_time l - start_time l), ''<NA>'', ''<NA>'', speaker l, ''<NA>'', ''<NA>'']"
  by (simp add: list_to_rttm_string_def)

lemma py_split_rttm_string:
  assumes "plain_word file_id" "plain_word (speaker l)"
  shows "py_split (list_to_rttm_string file_id l) =
     [''SPEAKER'', file_id, ''1'', format_2f (start_time l),
       format_2f (end_time l - start_time l), ''<NA>'', ''<NA>'', speaker l, ''<NA>'', ''<NA>'']"
proof -
  have "plain_word ''SPEAKER''" "plain_word ''1''" "plain_word ''<NA>''"
    by (simp_all add: plain_word_def is_space_def)
  then show ?thesis
    unfolding list_to_rttm_string_fields
    using assms format_2f_plain[of "start_time l"] format_2f_plain[of "end_time l - start_time l"]
    by (intro py_split_join_spaces) simp
qed

text \<open>
  Claim C7, as the code has it. A record is serialised as the ten fields
  \<^verbatim>\<open>SPEAKER file_id 1 start duration <NA> <NA> label <NA> <NA>\<close> with one space between them,
  \<open>duration = end - start\<close>, both numbers with two decimals. When the label, like the file
  id, is non-empty and free of whitespace, the parser splits the line into exactly these
  fields: it reads back the label unchanged and, for start and duration, what the reader of
  numbers makes of the two numerals written; and serialising any record with this label
  again gives a line that has the same fields except for the two numerals. Whether the
  numerals come out the same depends on the rounding of the numbers read and of
  \<open>start + duration - start\<close>, which the arithmetic of this theory does not model. For a
  label with a space inside the line itself does not come back: the parser reads
  \<^verbatim>\<open>Speaker\<close> for the label \<^verbatim>\<open>Speaker 1\<close>, and the second line differs from the first in its
  label field.
\<close>

theorem rttm_fields_read_back:
  "list_to_rttm_string file_id (start, end, label) =
     join_spaces [''SPEAKER'', file_id, ''1'', format_2f start, format_2f (end - start),
       ''<NA>'', ''<NA>'', label, ''<NA>'', ''<NA>''] \<and>
   (plain_word file_id \<and> plain_word label \<longrightarrow>
      py_split (list_to_rttm_string file_id (start, end, label)) =
        [''SPEAKER'', file_id, ''1'', format_2f start, format_2f (end - start),
         ''<NA>'', ''<NA>'', label, ''<NA>'', ''<NA>''] \<and>
      parse_rttm_file float_of [list_to_rttm_string file_id (start, end, label)] =
        (case float_of (format_2f start) of None \<Rightarrow> Inl ValueError
         | Some s \<Rightarrow>
           (case float_of (format_2f (end - start)) of None \<Rightarrow> Inl ValueError
            | Some d \<Rightarrow> Inr [(s, d, label)])) \<and>
      (\<forall>s e. \<exists>a b. py_split (list_to_rttm_string file_id (s, e, label)) =
         [''SPEAKER'', file_id, ''1'', a, b, ''<NA>'', ''<NA>'', label, ''<NA>'', ''<NA>'']))"
proof (intro conjI impI allI)
  show "list_to_rttm_string file_id (start, end, label) =
     join_spaces [''SPEAKER'', file_id, ''1'', format_2f start, format_2f (end - start),
       ''<NA>'', ''<NA>'', label, ''<NA>'', ''<NA>'']"
    by (simp add: list_to_rttm_string_fields start_time_def end_time_def speaker_def)
next
  assume a: "plain_word file_id \<and> plain_word label"
  have f: "py_split (list_to_rttm_string file_id (s, e, label)) =
        [''SPEAKER'', file_id, ''1'', format_2f s, format_2f (e - s),
         ''<NA>'', ''<NA>'', label, ''<NA>'', ''<NA>'']" for s e
    using py_split_rttm_string[of file_id "(s, e, label)"] a
    by (simp add: start_time_def end_time_def speaker_def)
  show "py_split (list_to_rttm_string file_id (start, end, label)) =
        [''SPEAKER'', file_id, ''1'', format_2f start, format_2f (end - start),
         ''<NA>'', ''<NA>'', label, ''<NA>'', ''<NA>'']"
    by (rule f)
  show "parse_rttm_file float_of [list_to_rttm_string file_id (start, end, label)] =
        (case float_of (format_2f start) of None \<Rightarrow> Inl ValueError
         | Some s \<Rightarrow>
           (case float_of (format_2f (end - start)) of None \<Rightarrow> Inl ValueError
            | Some d \<Rightarrow> Inr [(s, d, label)]))"
    by (simp add: parse_rttm_file_def parse_rttm_line_def py_split_strip f py_index_def
          split: option.splits)
  show "\<exists>a b. py_split (list_to_rttm_string file_id (s, e, label)) =
         [''SPEAKER'', file_id, ''1'', a, b, ''<NA>'', ''<NA>'', label, ''<NA>'', ''<NA>'']" for s e
    using f[of s e] by blast
qed

theorem rttm_fields_read_back_witness:
  "plain_word ''f'' \<and> plain_word ''A'' \<and>
   list_to_rttm_string ''f'' (1 / 2, 5 / 4, ''A'') = ''SPEAKER f 1 0.50 0.75 <NA> <NA> A <NA> <NA>'' \<and>
   py_split ''SPEAKER f 1 0.50 0.75 <NA> <NA> A <NA> <NA>''
     = [''SPEAKER'', ''f'', ''1'', ''0.50'', ''0.75'', ''<NA>'', ''<NA>'', ''A'', ''<NA>'', ''<NA>''] \<and>
   parse_rttm_file py_float [''SPEAKER f 1 0.50 0.75 <NA> <NA> A <NA> <NA>'']
     = Inr [(1 / 2, 3 / 4, ''A'')]"
proof -
  have ev: "list_to_rttm_string ''f'' (1 / 2, 5 / 4, ''A'') = ''SPEAKER f 1 0.50 0.75 <NA> <NA> A <NA> <NA>''"
    by code_simp
  have fm: "format_2f (1 / 2) = ''0.50''" "format_2f (5 / 4 - 1 / 2) = ''0.75''"
    by code_simp+
  have rd: "py_float ''0.50'' = Some (1 / 2)" "py_float ''0.75'' = Some (3 / 4)"
    by code_simp+
  have pl: "plain_word ''f''" "plain_word ''A''"
    by (simp_all add: plain_word_def is_space_def)
  show ?thesis
    using rttm_fields_read_back[of "''f''" "1 / 2" "5 / 4" "''A''" py_float] pl
    unfolding ev fm by (simp add: rd)
qed

theorem rttm_round_trip_counterexample:
  "list_to_rttm_string ''f'' (0, 1, ''Speaker 1'')
     = ''SPEAKER f 1 0.00 1.00 <NA> <NA> Speaker 1 <NA> <NA>'' \<and>
   reserialize ''f'' (list_to_rttm_string ''f'' (0, 1, ''Speaker 1''))
     = Some ''SPEAKER f 1 0.00 1.00 <NA> <NA> Speaker <NA> <NA>''"
  by code_simp

theorem parse_rttm_file_malformed_witness:
  "\<not> malformed_record py_float (''SPEAKER f 1 0.50 0.75 <NA> <NA> A <NA> <NA>'' @ [CHR 0x0A]) \<and>
   parse_rttm_file py_float [''SPEAKER f 1 0.50 0.75 <NA> <NA> A <NA> <NA>'' @ [CHR 0x0A]]
     = Inr [(1 / 2, 3 / 4, ''A'')] \<and>
   malformed_record py_float ''SPEAKER f 1 0.50 0.75 <NA> <NA>'' \<and>
   malformed_record py_float ''SPEAKER f 1 0.50 soon <NA> <NA> A <NA> <NA>'' \<and>
   parse_rttm_file py_float [''SPEAKER f 1 0.50 0.75 <NA> <NA>''] = Inl IndexError \<and>
   parse_rttm_file py_float [''SPEAKER f 1 0.50 soon <NA> <NA> A <NA> <NA>''] = Inl ValueError"
proof -
  have a: "\<not> malformed_record py_float (''SPEAKER f 1 0.50 0.75 <NA> <NA> A <NA> <NA>'' @ [CHR 0x0A])"
    by code_simp
  have r: "record_of py_float (''SPEAKER f 1 0.50 0.75 <NA> <NA> A <NA> <NA>'' @ [CHR 0x0A])
      = (1 / 2, 3 / 4, ''A'')"
    by code_simp
  have b: "malformed_record py_float ''SPEAKER f 1 0.50 0.75 <NA> <NA>''"
          "malformed_record py_float ''SPEAKER f 1 0.50 soon <NA> <NA> A <NA> <NA>''"
    by code_simp+
  have c: "parse_rttm_file py_float [''SPEAKER f 1 0.50 0.75 <NA> <NA>''] = Inl IndexError"
          "parse_rttm_file py_float [''SPEAKER f 1 0.50 soon <NA> <NA> A <NA> <NA>''] = Inl ValueError"
    by code_simp+
  show ?thesis
    using parse_rttm_file_malformed[of py_float "[''SPEAKER f 1 0.50 0.75 <NA> <NA> A <NA> <NA>'' @ [CHR 0x0A]]"]
      a r b c by simp
qed

section \<open>Properties of the converter\<close>

subsection \<open>The dictionary built by the loop\<close>

lemma csv_loop_read_rows:
  "csv_loop float_of result ws =
     (case read_rows float_of ws of Inl e \<Rightarrow> Inl e
      | Inr rows \<Rightarrow> Inr (fold (\<lambda>r res. dict_add res r) rows result))"
  by (induction ws arbitrary: result) (auto split: sum.splits)

lemma set_first_occurrences: "set (first_occurrences xs) = set xs"
  by (induction xs) auto

lemma distinct_first_occurrences: "distinct (first_occurrences xs)"
  by (induction xs) (auto simp: set_first_occurrences)

lemma first_occurrences_snoc:
  "first_occurrences (xs @ [x]) =
     (if x \<in> set xs then first_occurrences xs else first_occurrences xs @ [x])"
  by (induction xs) auto

lemma keys_grouped: "fst ` set (grouped rows) = speaker ` set rows"
  by (simp add: grouped_def image_image set_first_occurrences)

lemma dict_add_grouped: "dict_add (grouped prev) r = grouped (prev @ [r])"
proof (cases "speaker r \<in> speaker ` set prev")
  case True
  then have "dict_add (grouped prev) r
      = map (\<lambda>(k, v). if k = speaker r then (k, v @ [r]) else (k, v)) (grouped prev)"
    by (simp add: dict_add_def keys_grouped)
  also have "\<dots> = grouped (prev @ [r])"
    using True by (auto simp: grouped_def first_occurrences_snoc group_of_def)
  finally show ?thesis .
next
  case False
  then have "dict_add (grouped prev) r = grouped prev @ [(speaker r, [r])]"
    by (simp add: dict_add_def keys_grouped)
  also have "\<dots> = grouped (prev @ [r])"
  proof -
    have "filter (\<lambda>x. speaker x = speaker r) prev = []"
      using False by (force simp: filter_empty_conv image_iff)
    moreover have "group_of (prev @ [r]) sp = group_of prev sp"
      if "sp \<in> set (first_occurrences (map speaker prev))" for sp
      using that False by (auto simp: group_of_def set_first_occurrences)
    ultimately show ?thesis
      using False by (simp add: grouped_def first_occurrences_snoc group_of_def)
  qed
  finally show ?thesis .
qed

lemma fold_dict_add_grouped:
  "fold (\<lambda>r res. dict_add res r) rows (grouped prev) = grouped (prev @ rows)"
  by (induction rows arbitrary: prev) (simp_all add: dict_add_grouped)

lemma fold_dict_add: "fold (\<lambda>r res. dict_add res r) rows [] = grouped rows"
  using fold_dict_add_grouped[of rows "[]"] by (simp add: grouped_def)

subsection \<open>Merging the groups, and the file id\<close>

lemma merge_groups_nonempty:
  "\<forall>kv \<in> set kvs. snd kv \<noteq> [] \<Longrightarrow>
   \<exists>ms. merge_groups kvs = Inr ms \<and>
        list_all2 (\<lambda>kv m. merge_close_numbers (snd kv) default_threshold = Inr m) kvs ms"
proof (induction kvs)
  case Nil
  show ?case by simp
next
  case (Cons kv kvs)
  obtain k v where kv: "kv = (k, v)" by (cases kv)
  have "v \<noteq> []" using Cons.prems kv by simp
  then obtain m where m: "merge_close_numbers v default_threshold = Inr m"
    by (cases v) (auto simp: merge_close_numbers_def)
  obtain ms where ms: "merge_groups kvs = Inr ms"
      "list_all2 (\<lambda>kv m. merge_close_numbers (snd kv) default_threshold = Inr m) kvs ms"
    using Cons by auto
  show ?case using m ms by (simp add: kv)
qed

lemma merge_groups_grouped:
  "\<exists>ms. merge_groups (grouped rows) = Inr ms \<and>
        list_all2 (\<lambda>sp m. merge_close_numbers (group_of rows sp) default_threshold = Inr m)
          (first_occurrences (map speaker rows)) ms"
proof -
  have "\<forall>kv \<in> set (grouped rows). snd kv \<noteq> []"
    by (auto simp: grouped_def set_first_occurrences group_of_def filter_empty_conv)
  from merge_groups_nonempty[OF this] obtain ms where ms: "merge_groups (grouped rows) = Inr ms"
    "list_all2 (\<lambda>kv m. merge_close_numbers (snd kv) default_threshold = Inr m) (grouped rows) ms"
    by blast
  have "list_all2 (\<lambda>sp m. merge_close_numbers (group_of rows sp) default_threshold = Inr m)
          (first_occurrences (map speaker rows)) ms"
    using ms(2) by (simp add: grouped_def list_all2_map1)
  then show ?thesis using ms(1) by blast
qed

lemma hd_split_on_char:
  "hd (split_on [d] cur s) = cur @ takeWhile (\<lambda>c. c \<noteq> d) s"
  by (induction s arbitrary: cur) simp_all

lemma file_id_of_takeWhile:
  "file_id_of path = takeWhile (\<lambda>c. c \<noteq> CHR ''.'') (basename path)"
  using hd_split_on_char[of "CHR ''.''" "[]" "basename path"] by (simp add: file_id_of_def)


text \<open>
  Claim C3, as the code has it. For every speaker-assigned alignment table whose rows after the header can be
  read (five fields separated by comma and space, start and end accepted by the reader of
  numbers), the converter groups the rows by speaker, keeping the order of the rows inside
  a group and taking the speakers in the order of their first row; applies the segment
  merger with the threshold 0.5 to each group; flattens the merged groups; sorts the result
  by start with a stable sort (the output is ascending in start, and records with the same
  start keep the order they had after flattening); serialises every record with the file
  id, which is the base name of the source path up to its first dot; and returns these
  lines joined by newline. A row that cannot be read makes the converter raise that row's
  error. The file id is the base name without its extension only for a base name with one
  dot: for \<^verbatim>\<open>a.b/my.talk.v2.csv\<close> the base name without its extension is \<^verbatim>\<open>my.talk.v2\<close> and the
  file id written is \<^verbatim>\<open>my\<close>.
\<close>

theorem convert_csv_to_rttm_pipeline:
  "(\<forall>rows. table_rows float_of input = Inr rows \<longrightarrow>
      (\<exists>merged.
         list_all2 (\<lambda>sp m. merge_close_numbers (group_of rows sp) default_threshold = Inr m)
           (first_occurrences (map speaker rows)) merged \<and>
         convert_csv_to_rttm float_of path input =
           Inr (py_join [CHR 0x0A]
                  (map (list_to_rttm_string (file_id_of path))
                     (sort_key start_time (concat merged)))) \<and>
         sorted (map start_time (sort_key start_time (concat merged))) \<and>
         (\<forall>t. filter (\<lambda>r. start_time r = t) (sort_key start_time (concat merged))
               = filter (\<lambda>r. start_time r = t) (concat merged)))) \<and>
   (\<forall>e. table_rows float_of input = Inl e \<longrightarrow> convert_csv_to_rttm float_of path input = Inl e) \<and>
   file_id_of path = takeWhile (\<lambda>c. c \<noteq> CHR ''.'') (basename path) \<and>
   default_threshold = 0.5"
proof (intro conjI allI impI)
  fix rows
  assume rows: "table_rows float_of input = Inr rows"
  then have loop: "csv_loop float_of [] (csv_words input) = Inr (grouped rows)"
    by (simp add: csv_loop_read_rows table_rows_def fold_dict_add)
  obtain merged where m: "merge_groups (grouped rows) = Inr merged"
    "list_all2 (\<lambda>sp m. merge_close_numbers (group_of rows sp) default_threshold = Inr m)
        (first_occurrences (map speaker rows)) merged"
    using merge_groups_grouped[of rows] by blast
  have "convert_csv_to_rttm float_of path input =
           Inr (py_join [CHR 0x0A]
                  (map (list_to_rttm_string (file_id_of path))
                     (sort_key start_time (concat merged))))"
    by (simp add: convert_csv_to_rttm_def loop m(1))
  then show "\<exists>merged.
         list_all2 (\<lambda>sp m. merge_close_numbers (group_of rows sp) default_threshold = Inr m)
           (first_occurrences (map speaker rows)) merged \<and>
         convert_csv_to_rttm float_of path input =
           Inr (py_join [CHR 0x0A]
                  (map (list_to_rttm_string (file_id_of path))
                     (sort_key start_time (concat merged)))) \<and>
         sorted (map start_time (sort_key start_time (concat merged))) \<and>
         (\<forall>t. filter (\<lambda>r. start_time r = t) (sort_key start_time (concat merged))
               = filter (\<lambda>r. start_time r = t) (concat merged))"
    using m(2) sorted_sort_key[of start_time "concat merged"]
      sort_key_stable[of start_time _ "concat merged"] by blast
next
  fix e
  assume "table_rows float_of input = Inl e"
  then show "convert_csv_to_rttm float_of path input = Inl e"
    by (simp add: convert_csv_to_rttm_def csv_loop_read_rows table_rows_def)
next
  show "file_id_of path = takeWhile (\<lambda>c. c \<noteq> CHR ''.'') (basename path)"
    by (rule file_id_of_takeWhile)
next
  show "default_threshold = 0.5" by (simp add: default_threshold_def)
qed

theorem convert_csv_to_rttm_pipeline_witness:
  "table_rows py_float
     (''Word, Start_ms, End_ms, Score, Speaker'' @ [CHR 0x0A] @ ''hi, 0.0, 0.5, 0.9, A'' @ [CHR 0x0A] @
      ''there, 0.6, 1.0, 0.8, A'' @ [CHR 0x0A] @ ''yo, 0.2, 0.4, 0.7, B'' @ [CHR 0x0A])
     = Inr [(0, 1 / 2, ''A''), (3 / 5, 1, ''A''), (1 / 5, 2 / 5, ''B'')] \<and>
   convert_csv_to_rttm py_float ''corpus/talk.csv''
     (''Word, Start_ms, End_ms, Score, Speaker'' @ [CHR 0x0A] @ ''hi, 0.0, 0.5, 0.9, A'' @ [CHR 0x0A] @
      ''there, 0.6, 1.0, 0.8, A'' @ [CHR 0x0A] @ ''yo, 0.2, 0.4, 0.7, B'' @ [CHR 0x0A])
     = Inr (''SPEAKER talk 1 0.00 1.00 <NA> <NA> A <NA> <NA>'' @ [CHR 0x0A] @
            ''SPEAKER talk 1 0.20 0.20 <NA> <NA> B <NA> <NA>'') \<and>
   table_rows py_float
     (''Word, Start_ms, End_ms, Score, Speaker'' @ [CHR 0x0A] @ ''hi, 0.0, 0.5, A'') = Inl ValueError \<and>
   convert_csv_to_rttm py_float ''corpus/talk.csv''
     (''Word, Start_ms, End_ms, Score, Speaker'' @ [CHR 0x0A] @ ''hi, 0.0, 0.5, A'') = Inl ValueError"
proof -
  have a: "table_rows py_float
     (''Word, Start_ms, End_ms, Score, Speaker'' @ [CHR 0x0A] @ ''hi, 0.0, 0.5, 0.9, A'' @ [CHR 0x0A] @
      ''there, 0.6, 1.0, 0.8, A'' @ [CHR 0x0A] @ ''yo, 0.2, 0.4, 0.7, B'' @ [CHR 0x0A])
     = Inr [(0, 1 / 2, ''A''), (3 / 5, 1, ''A''), (1 / 5, 2 / 5, ''B'')]"
    by code_simp
  have b: "convert_csv_to_rttm py_float ''corpus/talk.csv''
     (''Word, Start_ms, End_ms, Score, Speaker'' @ [CHR 0x0A] @ ''hi, 0.0, 0.5, 0.9, A'' @ [CHR 0x0A] @
      ''there, 0.6, 1.0, 0.8, A'' @ [CHR 0x0A] @ ''yo, 0.2, 0.4, 0.7, B'' @ [CHR 0x0A])
     = Inr (''SPEAKER talk 1 0.00 1.00 <NA> <NA> A <NA> <NA>'' @ [CHR 0x0A] @
            ''SPEAKER talk 1 0.20 0.20 <NA> <NA> B <NA> <NA>'')"
    by code_simp
  have c: "table_rows py_float
     (''Word, Start_ms, End_ms, Score, Speaker'' @ [CHR 0x0A] @ ''hi, 0.0, 0.5, A'') = Inl ValueError"
    by code_simp
  show ?thesis
    using convert_csv_to_rttm_pipeline[of py_float
        "''Word, Start_ms, End_ms, Score, Speaker'' @ [CHR 0x0A] @ ''hi, 0.0, 0.5, 0.9, A'' @ [CHR 0x0A] @
         ''there, 0.6, 1.0, 0.8, A'' @ [CHR 0x0A] @ ''yo, 0.2, 0.4, 0.7, B'' @ [CHR 0x0A]" "''corpus/talk.csv''"]
      convert_csv_to_rttm_pipeline[of py_float
        "''Word, Start_ms, End_ms, Score, Speaker'' @ [CHR 0x0A] @ ''hi, 0.0, 0.5, A''" "''corpus/talk.csv''"]
      a b c by simp
qed

theorem convert_csv_to_rttm_file_id_counterexample:
  "basename ''a.b/my.talk.v2.csv'' = ''my.talk.v2.csv'' \<and>
   strip_extension (basename ''a.b/my.talk.v2.csv'') = ''my.talk.v2'' \<and>
   file_id_of ''a.b/my.talk.v2.csv'' = ''my'' \<and>
   convert_csv_to_rttm py_float ''a.b/my.talk.v2.csv''
     (''Word, Start_ms, End_ms, Score, Speaker'' @ [CHR 0x0A] @ ''hi, 0.0, 0.5, 0.9, A'' @ [CHR 0x0A])
     = Inr ''SPEAKER my 1 0.00 0.50 <NA> <NA> A <NA> <NA>''"
  by code_simp

end
